theory Spec2Isabelle
  imports Main "HOL-Library.AList"
begin

section \<open>Class objects and the interpreter state\<close>

text \<open>
  The module \<^verbatim>\<open>amaranth/_utils.py\<close> works on class objects: it reads and writes
  attributes of metaclasses, creates classes and replaces a metaclass's constructor.
  A class object is identified by its position in the heap. Every field below is the
  attribute of the same name that CPython keeps on a type object. An identity that
  names no object of the heap does not occur in a running program; where a function
  of the model meets one, it answers with an error.
\<close>

type_synonym cid = nat

datatype pyerr =
    AssertionError
  | TypeError
  | AttributeError
  | RecursionError
  | NotImplementedError
  | UserError nat

text \<open>
  The callables that the module defines or uses. \<open>RedirectNew from_cls to_cls to_mcls_new\<close>
  is the closure \<^verbatim>\<open>__new__\<close> that \<^verbatim>\<open>redirect_subclasses\<close> builds, with the
  three variables it captures. \<open>UserHook h\<close> is a hook written by the author of a
  metaclass; its body is the \<open>h\<close>-th entry of a hook environment.
\<close>

datatype pyfun =
    TypeNew
  | ConformableMetaNew
  | RedirectNew cid cid pyfun
  | ObjectInitSubclass
  | ConformableMetaInitSubclass
  | ConformableMetaInstancecheck
  | ConformableMetaSubclasscheck
  | AbstractHook
  | UserHook nat

datatype pyval = VNone | VCls cid | VFun pyfun | VOther nat

type_synonym pydict = "(string \<times> pyval) list"

record pyclass =
  cls_name :: string
  cls_bases :: "cid list"
  cls_mro :: "cid list"
  cls_type :: cid
  cls_dict :: pydict

type_synonym state = "pyclass list"

text \<open>The objects tested by \<^verbatim>\<open>isinstance\<close> and \<^verbatim>\<open>issubclass\<close>: an instance with
  its type, or a class object.\<close>

datatype pyobj = Instance cid nat | ClassObj cid

text \<open>What a hook or a membership method returns.\<close>

datatype pyres = PyBool bool | PyNotImplemented | PyOtherRes nat

type_synonym hookenv = "nat \<Rightarrow> cid \<Rightarrow> pyobj \<Rightarrow> pyerr + pyres"

definition object_id :: cid where "object_id = 0"
definition type_id :: cid where "type_id = 1"
definition conformable_meta_id :: cid where "conformable_meta_id = 2"

text \<open>Inside \<^verbatim>\<open>class ConformableMeta\<close> the name \<^verbatim>\<open>__top\<close> is mangled.\<close>

definition top_attr :: string where "top_attr = ''_ConformableMeta__top''"

definition get_cls :: "state \<Rightarrow> cid \<Rightarrow> pyclass option" where
  "get_cls s c = (if c < length s then Some (s ! c) else None)"

definition mro_of :: "state \<Rightarrow> cid \<Rightarrow> cid list" where
  "mro_of s c = (case get_cls s c of None \<Rightarrow> [] | Some k \<Rightarrow> cls_mro k)"

definition bases_of :: "state \<Rightarrow> cid \<Rightarrow> cid list" where
  "bases_of s c = (case get_cls s c of None \<Rightarrow> [] | Some k \<Rightarrow> cls_bases k)"

definition dict_of :: "state \<Rightarrow> cid \<Rightarrow> pydict" where
  "dict_of s c = (case get_cls s c of None \<Rightarrow> [] | Some k \<Rightarrow> cls_dict k)"

definition type_of :: "state \<Rightarrow> cid \<Rightarrow> cid option" where
  "type_of s c = map_option cls_type (get_cls s c)"

subsection \<open>Attribute access on classes\<close>

text \<open>\<^verbatim>\<open>_PyType_Lookup\<close>: the first class of an MRO whose own dictionary has the name.\<close>

fun lookup_mro :: "state \<Rightarrow> cid list \<Rightarrow> string \<Rightarrow> pyval option" where
  "lookup_mro s [] name = None"
| "lookup_mro s (c # cs) name =
     (case map_of (dict_of s c) name of
        Some v \<Rightarrow> Some v
      | None \<Rightarrow> lookup_mro s cs name)"

text \<open>
  \<^verbatim>\<open>type.__getattribute__(cls, name)\<close>: the MRO of the class itself comes first, then
  the MRO of its metaclass (none of the values modelled here is a data descriptor).
  \<open>None\<close> stands for \<^verbatim>\<open>AttributeError\<close>.
\<close>

definition class_getattr :: "state \<Rightarrow> cid \<Rightarrow> string \<Rightarrow> pyval option" where
  "class_getattr s c name =
     (case lookup_mro s (mro_of s c) name of
        Some v \<Rightarrow> Some v
      | None \<Rightarrow>
          (case type_of s c of
             None \<Rightarrow> None
           | Some t \<Rightarrow> lookup_mro s (mro_of s t) name))"

text \<open>
  \<^verbatim>\<open>type.__setattr__(cls, name, v)\<close> stores into the dictionary of the class itself.
  The built-in classes \<^verbatim>\<open>object\<close> and \<^verbatim>\<open>type\<close> are immutable.
\<close>

definition class_setattr :: "state \<Rightarrow> cid \<Rightarrow> string \<Rightarrow> pyval \<Rightarrow> pyerr + state" where
  "class_setattr s c name v =
     (if c = object_id \<or> c = type_id \<or> \<not> c < length s then Inl TypeError
      else Inr (s[c := (s ! c)\<lparr>cls_dict := AList.update name v (cls_dict (s ! c))\<rparr>]))"

subsection \<open>Nominal subtyping\<close>

text \<open>\<^verbatim>\<open>PyType_IsSubtype(a, b)\<close>: \<open>b\<close> occurs in the MRO of \<open>a\<close>.\<close>

definition issubtype :: "state \<Rightarrow> cid \<Rightarrow> cid \<Rightarrow> bool" where
  "issubtype s a b = (b \<in> set (mro_of s a))"

text \<open>A class object \<open>c\<close> is an instance of the class \<open>b\<close>: its type is a subtype of \<open>b\<close>.\<close>

definition isinstance_cls :: "state \<Rightarrow> cid \<Rightarrow> cid \<Rightarrow> bool" where
  "isinstance_cls s c b = (case type_of s c of None \<Rightarrow> False | Some t \<Rightarrow> issubtype s t b)"

definition type_of_obj :: "state \<Rightarrow> pyobj \<Rightarrow> cid option" where
  "type_of_obj s x = (case x of Instance t i \<Rightarrow> Some t | ClassObj c \<Rightarrow> type_of s c)"

text \<open>\<^verbatim>\<open>type.__instancecheck__\<close> and \<^verbatim>\<open>type.__subclasscheck__\<close>, the default
  implementations reached through \<^verbatim>\<open>super()\<close>.\<close>

definition type_instancecheck :: "state \<Rightarrow> cid \<Rightarrow> pyobj \<Rightarrow> pyerr + pyres" where
  "type_instancecheck s cls instance =
     (case type_of_obj s instance of
        None \<Rightarrow> Inr (PyBool False)
      | Some t \<Rightarrow> Inr (PyBool (issubtype s t cls)))"

definition type_subclasscheck :: "state \<Rightarrow> cid \<Rightarrow> pyobj \<Rightarrow> pyerr + pyres" where
  "type_subclasscheck s cls subclass =
     (case subclass of
        ClassObj c \<Rightarrow> Inr (PyBool (issubtype s c cls))
      | Instance t i \<Rightarrow> Inl TypeError)"

section \<open>ConformableMeta: membership tests\<close>

text \<open>
  \<^verbatim>\<open>cls.conformable_isinstance(instance)\<close>: the attribute is looked up on the class and
  called as a method bound to \<^verbatim>\<open>cls\<close>; the abstract methods of \<^verbatim>\<open>ConformableMeta\<close>
  raise \<^verbatim>\<open>NotImplementedError\<close>, and a value that is not a function cannot be called.
\<close>

definition call_hook :: "hookenv \<Rightarrow> state \<Rightarrow> cid \<Rightarrow> string \<Rightarrow> pyobj \<Rightarrow> pyerr + pyres" where
  "call_hook henv s cls name arg =
     (case class_getattr s cls name of
        None \<Rightarrow> Inl AttributeError
      | Some (VFun (UserHook h)) \<Rightarrow> henv h cls arg
      | Some (VFun AbstractHook) \<Rightarrow> Inl NotImplementedError
      | Some _ \<Rightarrow> Inl TypeError)"

text \<open>
  \<^verbatim>\<open>
  def __instancecheck__(cls, instance):
      if cls is not cls.__top:
          return super().__instancecheck__(instance)
      result = cls.conformable_isinstance(instance)
      if result is not NotImplemented:
          return result
      return super().__instancecheck__(instance)
  \<close>
\<close>

definition instancecheck :: "hookenv \<Rightarrow> state \<Rightarrow> cid \<Rightarrow> pyobj \<Rightarrow> pyerr + pyres" where
  "instancecheck henv s cls instance =
     (case class_getattr s cls top_attr of
        None \<Rightarrow> Inl AttributeError
      | Some t \<Rightarrow>
          if t \<noteq> VCls cls then type_instancecheck s cls instance
          else
            (case call_hook henv s cls ''conformable_isinstance'' instance of
               Inl e \<Rightarrow> Inl e
             | Inr result \<Rightarrow>
                 if result \<noteq> PyNotImplemented then Inr result
                 else type_instancecheck s cls instance))"

text \<open>
  \<^verbatim>\<open>
  def __subclasscheck__(cls, subclass):
      if cls is not cls.__top:
          return super().__subclasscheck__(subclass)
      result = cls.conformable_issubclass(subclass)
      if result is not NotImplemented:
          return result
      return super().__subclasscheck__(subclass)
  \<close>
\<close>

definition subclasscheck :: "hookenv \<Rightarrow> state \<Rightarrow> cid \<Rightarrow> pyobj \<Rightarrow> pyerr + pyres" where
  "subclasscheck henv s cls subclass =
     (case class_getattr s cls top_attr of
        None \<Rightarrow> Inl AttributeError
      | Some t \<Rightarrow>
          if t \<noteq> VCls cls then type_subclasscheck s cls subclass
          else
            (case call_hook henv s cls ''conformable_issubclass'' subclass of
               Inl e \<Rightarrow> Inl e
             | Inr result \<Rightarrow>
                 if result \<noteq> PyNotImplemented then Inr result
                 else type_subclasscheck s cls subclass))"

section \<open>Class construction\<close>

subsection \<open>The method resolution order\<close>

text \<open>
  The C3 merge used by \<^verbatim>\<open>type.mro\<close>: repeatedly take the first head that occurs in
  no tail. \<open>None\<close> is the \<^verbatim>\<open>TypeError\<close> for an inconsistent hierarchy (a duplicate
  base class is one).
\<close>

definition c3_good :: "cid list list \<Rightarrow> cid \<Rightarrow> bool" where
  "c3_good seqs h = list_all (\<lambda>q. h \<notin> set (tl q)) seqs"

definition c3_drop :: "cid \<Rightarrow> cid list list \<Rightarrow> cid list list" where
  "c3_drop h seqs = map (\<lambda>q. if hd q = h then tl q else q) seqs"

function c3_merge :: "cid list list \<Rightarrow> cid list option" where
  "c3_merge seqs =
     (let ne = filter (\<lambda>q. q \<noteq> []) seqs in
      if ne = [] then Some []
      else
        (case find (c3_good ne) (map hd ne) of
           None \<Rightarrow> None
         | Some h \<Rightarrow> map_option ((#) h) (c3_merge (c3_drop h ne))))"
  by pat_completeness auto

text \<open>Termination: each step removes the chosen head from at least one list.\<close>

lemma c3_find_hd:
  assumes "find (c3_good ne) (map hd ne) = Some h"
  shows "\<exists>q \<in> set ne. hd q = h"
  using assms by (auto simp: find_Some_iff)

lemma c3_drop_le: "sum_list (map length (c3_drop h seqs)) \<le> sum_list (map length seqs)"
  by (induction seqs) (auto simp: c3_drop_def)

lemma c3_drop_less:
  assumes "q \<in> set seqs" "q \<noteq> []" "hd q = h"
  shows "sum_list (map length (c3_drop h seqs)) < sum_list (map length seqs)"
  using assms
proof (induction seqs)
  case Nil
  then show ?case by simp
next
  case (Cons a seqs)
  show ?case
  proof (cases "a = q")
    case True
    have "length (tl q) < length q" using Cons.prems(2) by (cases q) auto
    moreover have "sum_list (map length (c3_drop h seqs)) \<le> sum_list (map length seqs)"
      by (rule c3_drop_le)
    ultimately show ?thesis using True Cons.prems(3) by (simp add: c3_drop_def)
  next
    case False
    then have "q \<in> set seqs" using Cons.prems(1) by simp
    then have "sum_list (map length (c3_drop h seqs)) < sum_list (map length seqs)"
      using Cons.IH Cons.prems(2,3) by simp
    moreover have "length (if hd a = h then tl a else a) \<le> length a" by simp
    ultimately show ?thesis by (simp add: c3_drop_def)
  qed
qed

lemma sum_length_filter_ne:
  "sum_list (map length (filter (\<lambda>q. q \<noteq> []) seqs)) = sum_list (map length seqs)"
  by (induction seqs) auto

termination c3_merge
proof (relation "measure (\<lambda>seqs. sum_list (map length seqs))")
  show "wf (measure (\<lambda>seqs. sum_list (map length seqs)))" by simp
next
  fix seqs :: "cid list list" and ne h
  assume ne: "ne = filter (\<lambda>q. q \<noteq> []) seqs" and "ne \<noteq> []"
    and f: "find (c3_good ne) (map hd ne) = Some h"
  from c3_find_hd [OF f] obtain q where q: "q \<in> set ne" "hd q = h" by blast
  then have "q \<noteq> []" using ne by simp
  then have "sum_list (map length (c3_drop h ne)) < sum_list (map length ne)"
    using c3_drop_less q by blast
  then show "(c3_drop h ne, seqs) \<in> measure (\<lambda>seqs. sum_list (map length seqs))"
    using ne sum_length_filter_ne [of seqs] by simp
qed

declare c3_merge.simps [simp del]

subsection \<open>type.__new__\<close>

text \<open>
  \<^verbatim>\<open>_PyType_CalculateMetaclass\<close>: the most derived metaclass among the requested one
  and the types of the bases; a \<^verbatim>\<open>TypeError\<close> (metaclass conflict) when there is none.
\<close>

fun calculate_metaclass :: "state \<Rightarrow> cid \<Rightarrow> cid list \<Rightarrow> pyerr + cid" where
  "calculate_metaclass s winner [] = Inr winner"
| "calculate_metaclass s winner (b # bs) =
     (case type_of s b of
        None \<Rightarrow> Inl TypeError
      | Some tmptype \<Rightarrow>
          if issubtype s winner tmptype then calculate_metaclass s winner bs
          else if issubtype s tmptype winner then calculate_metaclass s tmptype bs
          else Inl TypeError)"

text \<open>
  \<^verbatim>\<open>
  def __init_subclass__(cls):
      for absmeth in ("conformable_isinstance", "conformable_issubclass"):
          if absmeth not in vars(cls):
              raise TypeError(...)
  \<close>
\<close>

fun check_absmeths :: "pydict \<Rightarrow> string list \<Rightarrow> pyerr + unit" where
  "check_absmeths vars [] = Inr ()"
| "check_absmeths vars (absmeth # rest) =
     (if map_of vars absmeth = None then Inl TypeError
      else check_absmeths vars rest)"

definition init_subclass :: "state \<Rightarrow> cid \<Rightarrow> pyerr + unit" where
  "init_subclass s cls =
     check_absmeths (dict_of s cls) [''conformable_isinstance'', ''conformable_issubclass'']"

text \<open>
  \<^verbatim>\<open>super(cls, cls).__init_subclass__()\<close>, which \<^verbatim>\<open>type.__new__\<close> calls on every new
  class: the function found in the MRO after the new class, applied to the new class.
\<close>

definition call_init_subclass :: "state \<Rightarrow> pyval option \<Rightarrow> cid \<Rightarrow> pyerr + unit" where
  "call_init_subclass s f cls =
     (case f of
        None \<Rightarrow> Inl AttributeError
      | Some (VFun ObjectInitSubclass) \<Rightarrow> Inr ()
      | Some (VFun ConformableMetaInitSubclass) \<Rightarrow> init_subclass s cls
      | Some _ \<Rightarrow> Inl TypeError)"

text \<open>
  An empty base list stands for \<^verbatim>\<open>(object,)\<close>. The MRO of a new class is the class
  followed by the C3 merge of the MROs of its bases and the base list; \<open>mro_tail\<close> is
  that merge, and \<open>inherited_attr\<close> is what the new class inherits under a name: the
  first entry along that tail.
\<close>

definition bases_or_object :: "cid list \<Rightarrow> cid list" where
  "bases_or_object bases = (if bases = [] then [object_id] else bases)"

definition mro_tail :: "state \<Rightarrow> cid list \<Rightarrow> cid list option" where
  "mro_tail s bases =
     c3_merge (map (mro_of s) (bases_or_object bases) @ [bases_or_object bases])"

definition inherited_attr :: "state \<Rightarrow> cid list \<Rightarrow> string \<Rightarrow> pyval option" where
  "inherited_attr s bases name =
     (case mro_tail s bases of None \<Rightarrow> None | Some m \<Rightarrow> lookup_mro s m name)"

text \<open>
  The body of \<^verbatim>\<open>type.__new__\<close> once the metaclass is settled: the new class object
  is allocated at the end of the heap. A base that is not an existing class, or bases
  without a consistent MRO, are a \<^verbatim>\<open>TypeError\<close>. A class whose
  \<^verbatim>\<open>__init_subclass__\<close> call raises is dropped.
\<close>

definition type_new_impl ::
  "state \<Rightarrow> cid \<Rightarrow> string \<Rightarrow> cid list \<Rightarrow> pydict \<Rightarrow> (pyerr + cid) \<times> state" where
  "type_new_impl s metatype name bases namespace =
     (let cls = length s
      in if \<not> list_all (\<lambda>b. b < length s) (bases_or_object bases) then (Inl TypeError, s)
         else
           (case mro_tail s bases of
              None \<Rightarrow> (Inl TypeError, s)
            | Some m \<Rightarrow>
                (let s' = s @ [\<lparr>cls_name = name, cls_bases = bases_or_object bases,
                                cls_mro = cls # m, cls_type = metatype,
                                cls_dict = namespace\<rparr>]
                 in case call_init_subclass s' (lookup_mro s' m ''__init_subclass__'') cls of
                      Inl e \<Rightarrow> (Inl e, s)
                    | Inr u \<Rightarrow> (Inr cls, s'))))"

subsection \<open>Calling a constructor\<close>

text \<open>
  \<open>call_new n f s mcls name bases namespace\<close> is the call
  \<^verbatim>\<open>f(mcls, name, bases, namespace)\<close> of a \<^verbatim>\<open>__new__\<close> function, with \<open>n\<close> the
  call depth still allowed; at depth 0 the interpreter raises \<^verbatim>\<open>RecursionError\<close>.
  An \<^verbatim>\<open>assert\<close> is executed (the interpreter does not run with \<^verbatim>\<open>-O\<close>).

  \<^item> \<^verbatim>\<open>type.__new__(metatype, ...)\<close> raises \<^verbatim>\<open>TypeError\<close> when \<^verbatim>\<open>metatype\<close> is not a
    subtype of \<^verbatim>\<open>type\<close>. It hands the call over to the most derived metaclass when
    that is not the one it was called with and has a \<^verbatim>\<open>__new__\<close> of its own.
  \<^item> \<^verbatim>\<open>ConformableMeta.__new__\<close>:
    \<^verbatim>\<open>
    cls = super().__new__(mcls, name, bases, namespace, **kwargs)
    if not bases:
        assert mcls.__top is None, ...
        mcls.__top = cls
    return cls
    \<close>
    where \<^verbatim>\<open>super()\<close> is \<^verbatim>\<open>super(ConformableMeta, mcls)\<close>: a \<^verbatim>\<open>TypeError\<close> unless
    \<^verbatim>\<open>mcls\<close> is a subclass or an instance of \<^verbatim>\<open>ConformableMeta\<close>, and otherwise
    \<^verbatim>\<open>type.__new__\<close>, the next \<^verbatim>\<open>__new__\<close> after \<^verbatim>\<open>ConformableMeta\<close> (metaclasses
    inherit from \<^verbatim>\<open>type\<close> alone).
  \<^item> the closure of \<^verbatim>\<open>redirect_subclasses\<close>:
    \<^verbatim>\<open>
    bases = tuple((to_cls if base is from_cls else base) for base in bases)
    return to_mcls_new(type(to_cls), name, bases, namespace, **kwargs)
    \<close>
\<close>

fun call_new ::
  "nat \<Rightarrow> pyfun \<Rightarrow> state \<Rightarrow> cid \<Rightarrow> string \<Rightarrow> cid list \<Rightarrow> pydict \<Rightarrow> (pyerr + cid) \<times> state" where
  "call_new 0 f s mcls name bases namespace = (Inl RecursionError, s)"
| "call_new (Suc n) TypeNew s metatype name bases namespace =
     (if \<not> issubtype s metatype type_id then (Inl TypeError, s)
      else
        (case calculate_metaclass s metatype bases of
           Inl e \<Rightarrow> (Inl e, s)
         | Inr winner \<Rightarrow>
             if winner \<noteq> metatype then
               (case lookup_mro s (mro_of s winner) ''__new__'' of
                  Some (VFun TypeNew) \<Rightarrow> type_new_impl s winner name bases namespace
                | Some (VFun f) \<Rightarrow> call_new n f s winner name bases namespace
                | _ \<Rightarrow> (Inl TypeError, s))
             else type_new_impl s metatype name bases namespace))"
| "call_new (Suc n) ConformableMetaNew s mcls name bases namespace =
     (if \<not> (issubtype s mcls conformable_meta_id \<or> isinstance_cls s mcls conformable_meta_id)
      then (Inl TypeError, s)
      else
        (case call_new n TypeNew s mcls name bases namespace of
           (Inl e, s') \<Rightarrow> (Inl e, s')
         | (Inr cls, s') \<Rightarrow>
             if bases = [] then
               (case class_getattr s' mcls top_attr of
                  None \<Rightarrow> (Inl AttributeError, s')
                | Some VNone \<Rightarrow>
                    (case class_setattr s' mcls top_attr (VCls cls) of
                       Inl e \<Rightarrow> (Inl e, s')
                     | Inr s'' \<Rightarrow> (Inr cls, s''))
                | Some _ \<Rightarrow> (Inl AssertionError, s'))
             else (Inr cls, s')))"
| "call_new (Suc n) (RedirectNew from_cls to_cls to_mcls_new) s mcls name bases namespace =
     (case type_of s to_cls of
        None \<Rightarrow> (Inl TypeError, s)
      | Some to_type \<Rightarrow>
          call_new n to_mcls_new s to_type name
            (map (\<lambda>base. if base = from_cls then to_cls else base) bases) namespace)"
| "call_new (Suc n) f s mcls name bases namespace = (Inl TypeError, s)"

text \<open>\<^verbatim>\<open>mcls(name, bases, namespace)\<close>: \<^verbatim>\<open>type.__call__\<close> looks \<^verbatim>\<open>__new__\<close> up along the
  MRO of the metaclass and calls it (\<^verbatim>\<open>type.__init__\<close> then does nothing).\<close>

definition metacall ::
  "nat \<Rightarrow> state \<Rightarrow> cid \<Rightarrow> string \<Rightarrow> cid list \<Rightarrow> pydict \<Rightarrow> (pyerr + cid) \<times> state" where
  "metacall n s mcls name bases namespace =
     (case lookup_mro s (mro_of s mcls) ''__new__'' of
        Some (VFun f) \<Rightarrow> call_new n f s mcls name bases namespace
      | _ \<Rightarrow> (Inl TypeError, s))"

text \<open>
  The statement \<^verbatim>\<open>class name(*bases, metaclass=meta): namespace\<close>. Its metaclass is
  the most derived one among \<^verbatim>\<open>meta\<close> (by default the type of the first base, or
  \<^verbatim>\<open>type\<close>) and the types of the bases; the statement calls that metaclass.
\<close>

definition stmt_metaclass :: "state \<Rightarrow> cid option \<Rightarrow> cid list \<Rightarrow> pyerr + cid" where
  "stmt_metaclass s meta_kw bases =
     (case (case meta_kw of
              Some m \<Rightarrow> Some m
            | None \<Rightarrow> (case bases of [] \<Rightarrow> Some type_id | b # bs \<Rightarrow> type_of s b)) of
        None \<Rightarrow> Inl TypeError
      | Some meta \<Rightarrow> calculate_metaclass s meta bases)"

definition class_stmt ::
  "nat \<Rightarrow> state \<Rightarrow> cid option \<Rightarrow> string \<Rightarrow> cid list \<Rightarrow> pydict \<Rightarrow> (pyerr + cid) \<times> state" where
  "class_stmt n s meta_kw name bases namespace =
     (case stmt_metaclass s meta_kw bases of
        Inl e \<Rightarrow> (Inl e, s)
      | Inr winner \<Rightarrow> metacall n s winner name bases namespace)"



section \<open>redirect_subclasses\<close>

text \<open>
  \<^verbatim>\<open>
  def redirect_subclasses(target_mcls, from_cls, to_cls):
      assert target_mcls in type(from_cls).__mro__, ...
      to_mcls_new = type(to_cls).__new__
      def __new__(mcls, name, bases, namespace, /, **kwargs): ...
      target_mcls.__new__ = __new__
  \<close>
\<close>

definition redirect_subclasses :: "state \<Rightarrow> cid \<Rightarrow> cid \<Rightarrow> cid \<Rightarrow> (pyerr + unit) \<times> state" where
  "redirect_subclasses s target_mcls from_cls to_cls =
     (case type_of s from_cls of
        None \<Rightarrow> (Inl TypeError, s)
      | Some from_type \<Rightarrow>
          if target_mcls \<notin> set (mro_of s from_type) then (Inl AssertionError, s)
          else
            (case type_of s to_cls of
               None \<Rightarrow> (Inl TypeError, s)
             | Some to_type \<Rightarrow>
                 (case class_getattr s to_type ''__new__'' of
                    Some (VFun to_mcls_new) \<Rightarrow>
                      (case class_setattr s target_mcls ''__new__''
                              (VFun (RedirectNew from_cls to_cls to_mcls_new)) of
                         Inl e \<Rightarrow> (Inl e, s)
                       | Inr s' \<Rightarrow> (Inr (), s'))
                  | Some _ \<Rightarrow> (Inl TypeError, s)
                  | None \<Rightarrow> (Inl AttributeError, s))))"



section \<open>The state after the module is imported\<close>

definition object_cls :: pyclass where
  "object_cls = \<lparr>cls_name = ''object'', cls_bases = [], cls_mro = [object_id],
     cls_type = type_id, cls_dict = [(''__init_subclass__'', VFun ObjectInitSubclass)]\<rparr>"

definition type_cls :: pyclass where
  "type_cls = \<lparr>cls_name = ''type'', cls_bases = [object_id], cls_mro = [type_id, object_id],
     cls_type = type_id, cls_dict = [(''__new__'', VFun TypeNew)]\<rparr>"

text \<open>The body of \<^verbatim>\<open>class ConformableMeta(type)\<close>.\<close>

definition conformable_meta_namespace :: pydict where
  "conformable_meta_namespace =
     [(top_attr, VNone),
      (''__new__'', VFun ConformableMetaNew),
      (''__init_subclass__'', VFun ConformableMetaInitSubclass),
      (''conformable_isinstance'', VFun AbstractHook),
      (''conformable_issubclass'', VFun AbstractHook),
      (''__instancecheck__'', VFun ConformableMetaInstancecheck),
      (''__subclasscheck__'', VFun ConformableMetaSubclasscheck)]"

definition builtins_state :: state where
  "builtins_state = [object_cls, type_cls]"

definition init_state :: state where
  "init_state =
     snd (class_stmt 2 builtins_state None ''ConformableMeta'' [type_id] conformable_meta_namespace)"

section \<open>Well-formed states\<close>

text \<open>
  What CPython guarantees for every class object: its MRO starts with the class itself,
  has no duplicates, names existing classes only and holds the whole MRO of each class
  in it; its type exists and is a subtype of \<^verbatim>\<open>type\<close>. The class \<^verbatim>\<open>object\<close> has the
  MRO \<^verbatim>\<open>(object,)\<close> and the default \<^verbatim>\<open>__init_subclass__\<close>, \<^verbatim>\<open>type\<close> has the MRO
  \<^verbatim>\<open>(type, object)\<close>, and \<^verbatim>\<open>ConformableMeta\<close> is a subtype of \<^verbatim>\<open>type\<close>.
\<close>

definition wf_cls :: "state \<Rightarrow> cid \<Rightarrow> bool" where
  "wf_cls s c =
     (case get_cls s c of
        None \<Rightarrow> False
      | Some k \<Rightarrow>
          (case cls_mro k of [] \<Rightarrow> False | x # rest \<Rightarrow> x = c) \<and>
          distinct (cls_mro k) \<and>
          list_all (\<lambda>x. x < length s) (cls_mro k) \<and>
          list_all (\<lambda>x. list_all (\<lambda>y. y \<in> set (cls_mro k)) (mro_of s x)) (cls_mro k) \<and>
          cls_type k < length s \<and>
          issubtype s (cls_type k) type_id)"

definition object_ok :: "state \<Rightarrow> bool" where
  "object_ok s =
     (mro_of s object_id = [object_id] \<and>
      map_of (dict_of s object_id) ''__init_subclass__'' = Some (VFun ObjectInitSubclass))"

definition type_ok :: "state \<Rightarrow> bool" where
  "type_ok s = (mro_of s type_id = [type_id, object_id])"

definition wf_state :: "state \<Rightarrow> bool" where
  "wf_state s =
     (list_all (wf_cls s) [0..<length s] \<and> object_ok s \<and> type_ok s \<and>
      issubtype s conformable_meta_id type_id)"

text \<open>
  What class construction leaves alone. \<open>extends s s'\<close>: every class of \<open>s\<close> is still
  there in \<open>s'\<close> with the same MRO, type and bases, and with the same dictionary but for
  the entry \<^verbatim>\<open>__top\<close>.
\<close>

definition extends :: "state \<Rightarrow> state \<Rightarrow> bool" where
  "extends s s' =
     (length s \<le> length s' \<and>
      (\<forall>c < length s.
         mro_of s' c = mro_of s c \<and> type_of s' c = type_of s c \<and>
         bases_of s' c = bases_of s c \<and>
         (\<forall>key. key \<noteq> top_attr \<longrightarrow> map_of (dict_of s' c) key = map_of (dict_of s c) key)))"

section \<open>A family used in the examples\<close>

text \<open>
  \<^verbatim>\<open>
  class ShapeMeta(ConformableMeta):
      def conformable_isinstance(cls, instance): ...   # hook 0
      def conformable_issubclass(cls, subclass): ...   # hook 1
  class Shape(metaclass=ShapeMeta): pass
  class Circle(Shape): pass
  class Impl(Shape): pass
  \<close>
  The classes get the identities 3, 4, 5 and 6. Hook 0 answers \<^verbatim>\<open>True\<close> for an instance
  whose tag is 1 (it has the attribute \<^verbatim>\<open>is_shape_like\<close>) and \<^verbatim>\<open>NotImplemented\<close>
  otherwise; hook 1 answers \<^verbatim>\<open>False\<close> for \<^verbatim>\<open>object\<close>, \<^verbatim>\<open>True\<close> for \<^verbatim>\<open>type\<close>
  and \<^verbatim>\<open>NotImplemented\<close> otherwise.
\<close>

definition shape_meta_namespace :: pydict where
  "shape_meta_namespace =
     [(''conformable_isinstance'', VFun (UserHook 0)),
      (''conformable_issubclass'', VFun (UserHook 1))]"

definition st_meta :: state where
  "st_meta = snd (class_stmt 4 init_state None ''ShapeMeta'' [conformable_meta_id]
                    shape_meta_namespace)"

definition st_shape :: state where
  "st_shape = snd (class_stmt 4 st_meta (Some 3) ''Shape'' [] [])"

definition st_circle :: state where
  "st_circle = snd (class_stmt 4 st_shape None ''Circle'' [4] [])"

definition st_impl :: state where
  "st_impl = snd (class_stmt 4 st_circle None ''Impl'' [4] [])"

definition shape_hooks :: hookenv where
  "shape_hooks h cls x =
     (if h = 0 then
        (case x of
           Instance t i \<Rightarrow> if i = 1 then Inr (PyBool True) else Inr PyNotImplemented
         | ClassObj c \<Rightarrow> Inr PyNotImplemented)
      else
        (case x of
           Instance t i \<Rightarrow> Inr PyNotImplemented
         | ClassObj c \<Rightarrow>
             if c = object_id then Inr (PyBool False)
             else if c = type_id then Inr (PyBool True)
             else Inr PyNotImplemented))"















text \<open>
  A metaclass that overrides \<^verbatim>\<open>__init_subclass__\<close>:
  \<^verbatim>\<open>
  class Mixin(type):                             # class 3
      __init_subclass__ = object.__init_subclass__
  \<close>
\<close>

definition mixin_namespace :: pydict where
  "mixin_namespace = [(''__init_subclass__'', VFun ObjectInitSubclass)]"

definition st_mixin :: state where
  "st_mixin = snd (class_stmt 4 init_state None ''Mixin'' [type_id] mixin_namespace)"


section \<open>Membership tests of the top class and of derived classes\<close>

text \<open>
  C1. Let \<open>T\<close> be the registered top class of its family (\<^verbatim>\<open>T.__top is T\<close>) and let
  \<^verbatim>\<open>T.conformable_isinstance\<close> be the hook \<open>h\<close> of the metaclass. When the hook returns
  \<^verbatim>\<open>True\<close> or \<^verbatim>\<open>False\<close> for a value, \<^verbatim>\<open>T.__instancecheck__\<close> returns exactly that;
  when it returns \<^verbatim>\<open>NotImplemented\<close>, \<^verbatim>\<open>T.__instancecheck__\<close> returns the nominal
  result of \<^verbatim>\<open>type.__instancecheck__\<close>.
\<close>

theorem instancecheck_top:
  assumes top: "class_getattr s T top_attr = Some (VCls T)"
    and hook: "class_getattr s T ''conformable_isinstance'' = Some (VFun (UserHook h))"
  shows "(henv h T v = Inr (PyBool b) \<longrightarrow> instancecheck henv s T v = Inr (PyBool b)) \<and>
         (henv h T v = Inr PyNotImplemented \<longrightarrow>
            instancecheck henv s T v = type_instancecheck s T v)"
  using top hook by (simp add: instancecheck_def call_hook_def)

theorem instancecheck_top_witness:
  "instancecheck shape_hooks st_shape 4 (Instance 0 1) = Inr (PyBool True) \<and>
   instancecheck shape_hooks st_shape 4 (Instance 0 0) = Inr (PyBool False)"
proof -
  have top: "class_getattr st_shape 4 top_attr = Some (VCls 4)"
    by code_simp
  have hook: "class_getattr st_shape 4 ''conformable_isinstance'' = Some (VFun (UserHook 0))"
    by code_simp
  have h1: "shape_hooks 0 4 (Instance 0 1) = Inr (PyBool True)"
    by (simp add: shape_hooks_def)
  have h0: "shape_hooks 0 4 (Instance 0 0) = Inr PyNotImplemented"
    by (simp add: shape_hooks_def)
  have nominal: "type_instancecheck st_shape 4 (Instance 0 0) = Inr (PyBool False)"
    by code_simp
  from instancecheck_top [OF top hook, of shape_hooks "Instance 0 1" True] h1
  have "instancecheck shape_hooks st_shape 4 (Instance 0 1) = Inr (PyBool True)"
    by simp
  moreover from instancecheck_top [OF top hook, of shape_hooks "Instance 0 0" True] h0 nominal
  have "instancecheck shape_hooks st_shape 4 (Instance 0 0) = Inr (PyBool False)"
    by simp
  ultimately show ?thesis by simp
qed

text \<open>
  C2. Let \<open>D\<close> be a class that reads the registered top class \<open>T\<close> of the family as
  \<^verbatim>\<open>D.__top\<close>, with \<open>D\<close> not \<open>T\<close> itself, as every class derived from \<open>T\<close> is. For
  every value and whatever the hooks do, \<^verbatim>\<open>D.__instancecheck__\<close> returns the nominal
  result of \<^verbatim>\<open>type.__instancecheck__\<close>.
\<close>

theorem instancecheck_derived:
  assumes "class_getattr s D top_attr = Some (VCls T)" and "D \<noteq> T"
  shows "instancecheck henv s D v = type_instancecheck s D v"
  using assms by (simp add: instancecheck_def)

theorem instancecheck_derived_witness:
  "instancecheck shape_hooks st_circle 5 (Instance 5 0) = Inr (PyBool True) \<and>
   instancecheck shape_hooks st_circle 5 (Instance 0 1) = Inr (PyBool False)"
proof -
  have top: "class_getattr st_circle 5 top_attr = Some (VCls 4)"
    by code_simp
  have ne: "(5::nat) \<noteq> 4" by simp
  have n1: "type_instancecheck st_circle 5 (Instance 5 0) = Inr (PyBool True)"
    by code_simp
  have n2: "type_instancecheck st_circle 5 (Instance 0 1) = Inr (PyBool False)"
    by code_simp
  show ?thesis
    using instancecheck_derived [OF top ne, of shape_hooks "Instance 5 0"]
      instancecheck_derived [OF top ne, of shape_hooks "Instance 0 1"] n1 n2
    by simp
qed

text \<open>
  C3. \<^verbatim>\<open>__subclasscheck__\<close> mirrors \<^verbatim>\<open>__instancecheck__\<close>. For the registered top class
  it returns what the hook \<^verbatim>\<open>conformable_issubclass\<close> returns when that is \<^verbatim>\<open>True\<close>
  or \<^verbatim>\<open>False\<close>, and the nominal result of \<^verbatim>\<open>type.__subclasscheck__\<close> when the hook
  returns \<^verbatim>\<open>NotImplemented\<close>; for a class that is not the registered top class it
  returns the nominal result unconditionally.
\<close>

theorem subclasscheck_symmetric:
  assumes "class_getattr s cls top_attr = Some t"
  shows "(t = VCls cls \<and>
            class_getattr s cls ''conformable_issubclass'' = Some (VFun (UserHook h)) \<and>
            henv h cls sub = Inr (PyBool b) \<longrightarrow>
              subclasscheck henv s cls sub = Inr (PyBool b)) \<and>
         (t = VCls cls \<and>
            class_getattr s cls ''conformable_issubclass'' = Some (VFun (UserHook h)) \<and>
            henv h cls sub = Inr PyNotImplemented \<longrightarrow>
              subclasscheck henv s cls sub = type_subclasscheck s cls sub) \<and>
         (t \<noteq> VCls cls \<longrightarrow> subclasscheck henv s cls sub = type_subclasscheck s cls sub)"
  using assms by (simp add: subclasscheck_def call_hook_def)

theorem subclasscheck_symmetric_witness:
  "subclasscheck shape_hooks st_circle 4 (ClassObj 0) = Inr (PyBool False) \<and>
   subclasscheck shape_hooks st_circle 4 (ClassObj 5) = Inr (PyBool True) \<and>
   subclasscheck shape_hooks st_circle 5 (ClassObj 1) = Inr (PyBool False)"
proof -
  have top4: "class_getattr st_circle 4 top_attr = Some (VCls 4)"
    by code_simp
  have top5: "class_getattr st_circle 5 top_attr = Some (VCls 4)"
    by code_simp
  have hook: "class_getattr st_circle 4 ''conformable_issubclass'' = Some (VFun (UserHook 1))"
    by code_simp
  have h0: "shape_hooks 1 4 (ClassObj 0) = Inr (PyBool False)"
    by (simp add: shape_hooks_def object_id_def)
  have h5: "shape_hooks 1 4 (ClassObj 5) = Inr PyNotImplemented"
    by (simp add: shape_hooks_def object_id_def type_id_def)
  have n5: "type_subclasscheck st_circle 4 (ClassObj 5) = Inr (PyBool True)"
    by code_simp
  have n1: "type_subclasscheck st_circle 5 (ClassObj 1) = Inr (PyBool False)"
    by code_simp
  have "subclasscheck shape_hooks st_circle 4 (ClassObj 0) = Inr (PyBool False)"
    using subclasscheck_symmetric [OF top4, of 1 shape_hooks "ClassObj 0" False] hook h0
    by simp
  moreover have "subclasscheck shape_hooks st_circle 4 (ClassObj 5) = Inr (PyBool True)"
    using subclasscheck_symmetric [OF top4, of 1 shape_hooks "ClassObj 5" True] hook h5 n5
    by simp
  moreover have "subclasscheck shape_hooks st_circle 5 (ClassObj 1) = Inr (PyBool False)"
    using subclasscheck_symmetric [OF top5, of 0 shape_hooks "ClassObj 1" True] n1
    by simp
  ultimately show ?thesis by simp
qed

section \<open>Auxiliary facts about the heap\<close>

lemma class_setattr_Inr:
  assumes "class_setattr s c name v = Inr s'"
  shows "length s' = length s"
    and "bases_of s' x = bases_of s x"
    and "mro_of s' x = mro_of s x"
    and "type_of s' x = type_of s x"
    and "dict_of s' x = (if x = c then AList.update name v (dict_of s c) else dict_of s x)"
    and "c < length s" and "c \<noteq> object_id" and "c \<noteq> type_id"
  using assms
  by (auto simp: class_setattr_def bases_of_def mro_of_def type_of_def dict_of_def get_cls_def
      nth_list_update split: if_splits)

lemma get_cls_append:
  "get_cls (s @ [k]) c = (if c = length s then Some k else get_cls s c)"
  by (auto simp: get_cls_def nth_append)

lemma append_old:
  assumes "c < length s"
  shows "mro_of (s @ [k]) c = mro_of s c" "dict_of (s @ [k]) c = dict_of s c"
    "type_of (s @ [k]) c = type_of s c" "bases_of (s @ [k]) c = bases_of s c"
  using assms by (simp_all add: mro_of_def dict_of_def type_of_def bases_of_def get_cls_append)

lemma append_new:
  shows "mro_of (s @ [k]) (length s) = cls_mro k" "dict_of (s @ [k]) (length s) = cls_dict k"
    "type_of (s @ [k]) (length s) = Some (cls_type k)"
    "bases_of (s @ [k]) (length s) = cls_bases k"
  by (simp_all add: mro_of_def dict_of_def type_of_def bases_of_def get_cls_append)

lemma lookup_mro_append:
  assumes "list_all (\<lambda>x. x < length s) m"
  shows "lookup_mro (s @ [k]) m name = lookup_mro s m name"
  using assms by (induction m) (simp_all add: append_old split: option.splits)

lemma wf_stateD:
  assumes "wf_state s" "c < length s"
  shows "wf_cls s c"
  using assms by (simp add: wf_state_def list_all_iff)

lemma wf_cls_mro:
  assumes "wf_cls s c"
  shows "c < length s" "\<exists>rest. mro_of s c = c # rest" "distinct (mro_of s c)"
    "list_all (\<lambda>x. x < length s) (mro_of s c)" "\<exists>t. type_of s c = Some t \<and> t < length s"
  using assms
  by (auto simp: wf_cls_def mro_of_def type_of_def get_cls_def
      split: option.splits list.splits if_splits)

lemma wf_cls_closed:
  assumes "wf_cls s c" "x \<in> set (mro_of s c)"
  shows "set (mro_of s x) \<subseteq> set (mro_of s c)"
proof -
  from assms(1) obtain k where k: "get_cls s c = Some k"
    and a: "list_all (\<lambda>x. list_all (\<lambda>y. y \<in> set (cls_mro k)) (mro_of s x)) (cls_mro k)"
    by (auto simp: wf_cls_def split: option.splits)
  from k have m: "mro_of s c = cls_mro k" by (simp add: mro_of_def)
  from a assms(2) show ?thesis unfolding m by (auto simp: list_all_iff)
qed

lemma wf_cls_type:
  assumes "wf_cls s c" "type_of s c = Some t"
  shows "issubtype s t type_id"
  using assms by (auto simp: wf_cls_def type_of_def split: option.splits)

lemma class_getattr_append:
  assumes "wf_state s" "c < length s"
  shows "class_getattr (s @ [k]) c name = class_getattr s c name"
proof -
  from wf_stateD [OF assms] have w: "wf_cls s c" .
  from wf_cls_mro(5) [OF w] obtain t where t: "type_of s c = Some t" "t < length s" by blast
  from wf_stateD [OF assms(1) t(2)] have wt: "wf_cls s t" .
  show ?thesis
    using assms(2) t wf_cls_mro(4) [OF w] wf_cls_mro(4) [OF wt]
    by (simp add: class_getattr_def append_old lookup_mro_append split: option.splits)
qed

subsection \<open>The C3 merge of a single base\<close>

lemma c3_merge_filter: "c3_merge (filter (\<lambda>q. q \<noteq> []) seqs) = c3_merge seqs"
  by (subst (1 2) c3_merge.simps) simp

lemma c3_merge_one:
  assumes "distinct xs"
  shows "c3_merge [xs] = Some xs"
  using assms
proof (induction xs)
  case Nil
  show ?case by (subst c3_merge.simps) simp
next
  case (Cons x xs)
  then have "c3_merge [xs] = Some xs" by simp
  then show ?case using Cons.prems
    by (subst c3_merge.simps) (simp add: c3_good_def c3_drop_def)
qed

lemma c3_merge_single_base:
  assumes "distinct (b # rest)"
  shows "c3_merge [b # rest, [b]] = Some (b # rest)"
proof -
  have "c3_merge [rest, []] = c3_merge [rest]"
    using c3_merge_filter [of "[rest, []]"] c3_merge_filter [of "[rest]"]
    by (cases "rest = []") simp_all
  also have "\<dots> = Some rest" using assms by (simp add: c3_merge_one)
  finally have "c3_merge [rest, []] = Some rest" .
  then show ?thesis using assms
    by (subst c3_merge.simps) (simp add: c3_good_def c3_drop_def)
qed

subsection \<open>What a linearisation holds\<close>

lemma find_SomeD_P: "find P xs = Some x \<Longrightarrow> P x"
  by (induction xs) (auto split: if_splits)

lemma c3_drop_subset:
  "\<Union>(set ` set (c3_drop h seqs)) \<subseteq> \<Union>(set ` set seqs)"
proof
  fix x
  assume "x \<in> \<Union>(set ` set (c3_drop h seqs))"
  then obtain q where q: "q \<in> set seqs" "x \<in> set (if hd q = h then tl q else q)"
    unfolding c3_drop_def by auto
  have "x \<in> set q"
  proof (cases "hd q = h")
    case True
    with q(2) have "x \<in> set (tl q)" by simp
    then show ?thesis by (cases q) simp_all
  next
    case False
    with q(2) show ?thesis by simp
  qed
  with q(1) show "x \<in> \<Union>(set ` set seqs)" by blast
qed

lemma c3_drop_removes:
  assumes "c3_good ne h" "\<forall>q \<in> set ne. q \<noteq> []"
  shows "h \<notin> \<Union>(set ` set (c3_drop h ne))"
proof -
  have a: "h \<notin> set (tl q)" if "q \<in> set ne" for q
    using that assms(1) by (simp add: c3_good_def list_all_iff)
  have b: "h \<notin> set q" if "q \<in> set ne" "hd q \<noteq> h" for q
    using a [OF that(1)] that(2) assms(2) that(1) by (cases q) auto
  show ?thesis using a b by (auto simp: c3_drop_def split: if_splits)
qed

lemma c3_merge_step:
  assumes "c3_merge seqs = Some r" "filter (\<lambda>q. q \<noteq> []) seqs \<noteq> []"
  shows "\<exists>h r'.
     find (c3_good (filter (\<lambda>q. q \<noteq> []) seqs)) (map hd (filter (\<lambda>q. q \<noteq> []) seqs))
       = Some h \<and>
     c3_merge (c3_drop h (filter (\<lambda>q. q \<noteq> []) seqs)) = Some r' \<and> r = h # r'"
proof -
  let ?ne = "filter (\<lambda>q. q \<noteq> []) seqs"
  have "c3_merge seqs = (case find (c3_good ?ne) (map hd ?ne) of None \<Rightarrow> None
        | Some h \<Rightarrow> map_option ((#) h) (c3_merge (c3_drop h ?ne)))"
    using assms(2) by (subst c3_merge.simps) (simp add: Let_def)
  with assms(1) show ?thesis
    by (cases "find (c3_good ?ne) (map hd ?ne)") auto
qed

lemma c3_merge_empty:
  assumes "c3_merge seqs = Some r" "filter (\<lambda>q. q \<noteq> []) seqs = []"
  shows "r = []"
proof -
  have "c3_merge seqs = Some []"
    using assms(2) by (subst c3_merge.simps) (simp add: Let_def)
  with assms(1) show ?thesis by simp
qed

text \<open>A linearisation has no duplicates and takes its classes from the merged lists.\<close>

lemma c3_merge_sound:
  "c3_merge seqs = Some r \<Longrightarrow> set r \<subseteq> \<Union>(set ` set seqs) \<and> distinct r"
proof (induction seqs arbitrary: r rule: c3_merge.induct)
  case (1 seqs)
  let ?ne = "filter (\<lambda>q. q \<noteq> []) seqs"
  show ?case
  proof (cases "?ne = []")
    case True
    with "1.prems" have "r = []" by (simp add: c3_merge_empty)
    then show ?thesis by simp
  next
    case False
    from c3_merge_step [OF "1.prems" False] obtain h r' where
      f: "find (c3_good ?ne) (map hd ?ne) = Some h"
      and m: "c3_merge (c3_drop h ?ne) = Some r'" and r: "r = h # r'"
      by blast
    from "1.IH" [OF refl False f m]
    have ih: "set r' \<subseteq> \<Union>(set ` set (c3_drop h ?ne))" "distinct r'" by simp_all
    from c3_find_hd [OF f] obtain q where q: "q \<in> set ?ne" "hd q = h" by blast
    from q(1) have qs: "q \<in> set seqs" by simp
    from q(1) have qn: "q \<noteq> []" by simp
    from qn q(2) have hq: "h \<in> set q" by (cases q) simp_all
    have good: "c3_good ?ne h"
      using f by (rule find_SomeD_P)
    have "\<forall>q\<in>set ?ne. q \<noteq> []" by simp
    from c3_drop_removes [OF good this]
    have "h \<notin> \<Union>(set ` set (c3_drop h ?ne))" .
    with ih(1) have hn: "h \<notin> set r'" by blast
    have s1: "\<Union>(set ` set (c3_drop h ?ne)) \<subseteq> \<Union>(set ` set ?ne)"
      by (rule c3_drop_subset)
    have "set ?ne \<subseteq> set seqs" by simp
    then have s2: "\<Union>(set ` set ?ne) \<subseteq> \<Union>(set ` set seqs)" by blast
    from ih(1) s1 s2 have sub: "set r' \<subseteq> \<Union>(set ` set seqs)" by blast
    have "h \<in> \<Union>(set ` set seqs)" using hq qs by blast
    with sub hn ih(2) r show ?thesis by simp
  qed
qed

lemma c3_merge_complete:
  "c3_merge seqs = Some r \<Longrightarrow> \<Union>(set ` set seqs) \<subseteq> set r"
proof (induction seqs arbitrary: r rule: c3_merge.induct)
  case (1 seqs)
  let ?ne = "filter (\<lambda>q. q \<noteq> []) seqs"
  show ?case
  proof (cases "?ne = []")
    case True
    then have "\<forall>q \<in> set seqs. q = []" by (simp add: filter_empty_conv)
    then show ?thesis by auto
  next
    case False
    from c3_merge_step [OF "1.prems" False] obtain h r' where
      f: "find (c3_good ?ne) (map hd ?ne) = Some h"
      and m: "c3_merge (c3_drop h ?ne) = Some r'" and r: "r = h # r'"
      by blast
    from "1.IH" [OF refl False f m]
    have ih: "\<Union>(set ` set (c3_drop h ?ne)) \<subseteq> set r'" .
    show ?thesis
    proof
      fix x
      assume "x \<in> \<Union>(set ` set seqs)"
      then obtain q where q: "q \<in> set seqs" "x \<in> set q" by blast
      then have qn: "q \<in> set ?ne" by auto
      let ?q' = "if hd q = h then tl q else q"
      have d: "?q' \<in> set (c3_drop h ?ne)"
        unfolding c3_drop_def set_map using qn by (rule imageI)
      have "x = h \<or> x \<in> set ?q'"
      proof (cases "hd q = h")
        case True
        from q(2) have "q \<noteq> []" by auto
        then have "q = hd q # tl q" by simp
        with q(2) have "x = hd q \<or> x \<in> set (tl q)" by (metis set_ConsD)
        with True show ?thesis by simp
      next
        case False
        with q(2) show ?thesis by simp
      qed
      then show "x \<in> set r"
      proof
        assume "x = h" then show ?thesis using r by simp
      next
        assume "x \<in> set ?q'"
        with d ih have "x \<in> set r'" by blast
        then show ?thesis using r by simp
      qed
    qed
  qed
qed

section \<open>Installing a redirection: what it leaves alone\<close>

lemma redirect_subclasses_frame:
  assumes "redirect_subclasses s target_mcls from_cls to_cls = (r, s')"
  shows "length s' = length s \<and> bases_of s' c = bases_of s c \<and>
         mro_of s' c = mro_of s c \<and> type_of s' c = type_of s c"
  using assms
  by (auto simp: redirect_subclasses_def class_setattr_Inr
      split: option.splits if_splits pyval.splits sum.splits)

text \<open>
  C7. A redirection is not retroactive: a class that exists when
  \<^verbatim>\<open>redirect_subclasses\<close> is called, and has \<^verbatim>\<open>from_cls\<close> among its bases, has the
  same base tuple afterwards, still with \<^verbatim>\<open>from_cls\<close> in it.
\<close>

theorem redirect_not_retroactive:
  assumes "redirect_subclasses s target_mcls from_cls to_cls = (r, s')"
    and "from_cls \<in> set (bases_of s c)"
  shows "bases_of s' c = bases_of s c \<and> from_cls \<in> set (bases_of s' c)"
  using assms redirect_subclasses_frame [OF assms(1), of c] by simp

theorem redirect_not_retroactive_witness:
  "fst (redirect_subclasses st_impl 3 4 6) = Inr () \<and>
   bases_of (snd (redirect_subclasses st_impl 3 4 6)) 5 = [4]"
proof -
  have b: "bases_of st_impl 5 = [4]" by code_simp
  then have m: "4 \<in> set (bases_of st_impl 5)" by simp
  have ok: "fst (redirect_subclasses st_impl 3 4 6) = Inr ()" by code_simp
  have "redirect_subclasses st_impl 3 4 6
          = (fst (redirect_subclasses st_impl 3 4 6), snd (redirect_subclasses st_impl 3 4 6))"
    by simp
  from redirect_not_retroactive [OF this m] b ok show ?thesis by simp
qed

text \<open>
  C8. When \<^verbatim>\<open>target_mcls\<close> is not in the MRO of the metaclass of \<^verbatim>\<open>from_cls\<close>,
  \<^verbatim>\<open>redirect_subclasses\<close> raises the \<^verbatim>\<open>AssertionError\<close> and the state, hence every
  constructor and every later class construction, is exactly what it was.
\<close>

theorem redirect_invalid_target:
  assumes "type_of s from_cls = Some from_type"
    and "target_mcls \<notin> set (mro_of s from_type)"
  shows "redirect_subclasses s target_mcls from_cls to_cls = (Inl AssertionError, s)"
  using assms by (simp add: redirect_subclasses_def)

theorem redirect_invalid_target_witness:
  "redirect_subclasses st_impl 6 4 6 = (Inl AssertionError, st_impl)"
proof -
  have t: "type_of st_impl 4 = Some 3" by code_simp
  have m: "6 \<notin> set (mro_of st_impl 3)" by code_simp
  from redirect_invalid_target [OF t m] show ?thesis .
qed

section \<open>Auxiliary facts about class construction\<close>

lemma object_ok_lookup:
  assumes "object_ok s"
  shows "lookup_mro s [object_id] ''__init_subclass__'' = Some (VFun ObjectInitSubclass)"
    and "object_id < length s" and "mro_of s object_id = [object_id]"
  using assms
  by (auto simp: object_ok_def mro_of_def get_cls_def split: if_splits)

lemma type_of_SomeD:
  assumes "type_of s c = Some t"
  shows "c < length s"
  using assms by (cases "c < length s") (simp_all add: type_of_def get_cls_def)

lemma issubtype_valid:
  assumes "issubtype s a b"
  shows "a < length s"
  using assms by (cases "a < length s") (simp_all add: issubtype_def mro_of_def get_cls_def)


lemma issubtype_setattr:
  assumes "class_setattr s c name v = Inr s'"
  shows "issubtype s' a b = issubtype s a b"
  using class_setattr_Inr(3) [OF assms] by (simp add: issubtype_def)

lemma calculate_metaclass_single:
  assumes "type_of s b = Some t" "t \<in> set (mro_of s t)"
  shows "calculate_metaclass s t [b] = Inr t"
  using assms by (simp add: issubtype_def)

lemma mro_tail_nobase:
  assumes "object_ok s"
  shows "mro_tail s [] = Some [object_id]"
  using c3_merge_single_base [of object_id "[]"] object_ok_lookup(3) [OF assms]
  by (simp add: mro_tail_def bases_or_object_def)

lemma type_new_impl_nobase:
  assumes "wf_state s"
  shows "type_new_impl s metatype name [] ns =
     (Inr (length s), s @ [\<lparr>cls_name = name, cls_bases = [object_id],
        cls_mro = [length s, object_id], cls_type = metatype, cls_dict = ns\<rparr>])"
proof -
  have ok: "object_ok s" using assms by (simp add: wf_state_def)
  note o = object_ok_lookup [OF ok]
  have l: "list_all (\<lambda>x. x < length s) [object_id]" using o(2) by simp
  show ?thesis
    using o mro_tail_nobase [OF ok] lookup_mro_append [OF l]
    by (simp add: type_new_impl_def Let_def call_init_subclass_def bases_or_object_def)
qed

lemma mro_tail_single:
  assumes wf: "wf_state s" and b: "b < length s"
  shows "mro_tail s [b] = Some (mro_of s b)"
proof -
  from wf_stateD [OF wf b] have w: "wf_cls s b" .
  from wf_cls_mro(2) [OF w] obtain rest where m: "mro_of s b = b # rest" by blast
  show ?thesis
    using c3_merge_single_base [of b rest] wf_cls_mro(3) [OF w] m
    by (simp add: mro_tail_def bases_or_object_def)
qed

lemma type_new_impl_single_init:
  assumes wf: "wf_state s" and b: "b < length s"
  shows "type_new_impl s metatype name [b] ns =
     (let s' = s @ [\<lparr>cls_name = name, cls_bases = [b],
                cls_mro = length s # mro_of s b, cls_type = metatype, cls_dict = ns\<rparr>]
      in case call_init_subclass s' (lookup_mro s (mro_of s b) ''__init_subclass__'') (length s) of
           Inl e \<Rightarrow> (Inl e, s)
         | Inr u \<Rightarrow> (Inr (length s), s'))"
proof -
  from wf_stateD [OF wf b] have w: "wf_cls s b" .
  show ?thesis
    using b mro_tail_single [OF wf b] lookup_mro_append [OF wf_cls_mro(4) [OF w]]
    by (simp add: type_new_impl_def Let_def bases_or_object_def)
qed

lemma type_new_impl_single:
  assumes wf: "wf_state s" and b: "b < length s"
    and init: "lookup_mro s (mro_of s b) ''__init_subclass__'' = Some (VFun ObjectInitSubclass)"
  shows "type_new_impl s metatype name [b] ns =
     (Inr (length s), s @ [\<lparr>cls_name = name, cls_bases = [b],
        cls_mro = length s # mro_of s b, cls_type = metatype, cls_dict = ns\<rparr>])"
  using init by (simp add: type_new_impl_single_init [OF wf b] call_init_subclass_def Let_def)

subsection \<open>Well-formedness is kept\<close>

lemma wf_cls_iff:
  "wf_cls s c \<longleftrightarrow>
     c < length s \<and> (\<exists>rest. mro_of s c = c # rest) \<and> distinct (mro_of s c) \<and>
     list_all (\<lambda>x. x < length s) (mro_of s c) \<and>
     (\<forall>x \<in> set (mro_of s c). set (mro_of s x) \<subseteq> set (mro_of s c)) \<and>
     (\<exists>t. type_of s c = Some t \<and> t < length s \<and> issubtype s t type_id)"
proof (cases "c < length s")
  case False
  then show ?thesis by (simp add: wf_cls_def get_cls_def)
next
  case True
  then have g: "get_cls s c = Some (s ! c)" by (simp add: get_cls_def)
  have m: "mro_of s c = cls_mro (s ! c)" using g by (simp add: mro_of_def)
  have t: "type_of s c = Some (cls_type (s ! c))" using g by (simp add: type_of_def)
  have h: "(case cls_mro (s ! c) of [] \<Rightarrow> False | x # rest \<Rightarrow> x = c)
             \<longleftrightarrow> (\<exists>rest. cls_mro (s ! c) = c # rest)"
    by (cases "cls_mro (s ! c)") auto
  have cl: "list_all (\<lambda>x. list_all (\<lambda>y. y \<in> set (cls_mro (s ! c))) (mro_of s x)) (cls_mro (s ! c))
             \<longleftrightarrow> (\<forall>x \<in> set (cls_mro (s ! c)). set (mro_of s x) \<subseteq> set (cls_mro (s ! c)))"
    by (auto simp: list_all_iff)
  show ?thesis
    unfolding wf_cls_def g option.case h cl m t using True by auto
qed

lemma wf_state_iff:
  "wf_state s \<longleftrightarrow>
     (\<forall>c < length s. wf_cls s c) \<and> object_ok s \<and> type_ok s \<and>
     issubtype s conformable_meta_id type_id"
  by (auto simp: wf_state_def list_all_iff)

lemma wf_state_setattr:
  assumes "wf_state s" "class_setattr s c name v = Inr s'"
  shows "wf_state s'"
proof -
  note f = class_setattr_Inr [OF assms(2)]
  have "wf_cls s' x" if "x < length s'" for x
    using that assms(1) f(1)
    by (simp add: wf_state_iff wf_cls_iff f(3,4) issubtype_setattr [OF assms(2)])
  moreover have "object_ok s'"
    using assms(1) f(7) by (simp add: wf_state_iff object_ok_def f(3,5))
  moreover have "issubtype s' conformable_meta_id type_id"
    using assms(1) by (simp add: wf_state_iff issubtype_setattr [OF assms(2)])
  moreover have "type_ok s'"
    using assms(1) by (simp add: wf_state_iff type_ok_def f(3))
  ultimately show ?thesis by (simp add: wf_state_iff)
qed


lemma family_not_builtin:
  assumes "wf_state s" "issubtype s mcls conformable_meta_id"
  shows "mcls \<noteq> object_id" "mcls \<noteq> type_id"
proof -
  from assms(1) have o: "mro_of s object_id = [object_id]" and t: "mro_of s type_id = [type_id, object_id]"
    by (simp_all add: wf_state_iff object_ok_def type_ok_def)
  show "mcls \<noteq> object_id"
  proof
    assume "mcls = object_id"
    with assms(2) o have "conformable_meta_id \<in> set [object_id]" by (simp add: issubtype_def)
    then show False by (simp add: conformable_meta_id_def object_id_def)
  qed
  show "mcls \<noteq> type_id"
  proof
    assume "mcls = type_id"
    with assms(2) t have "conformable_meta_id \<in> set [type_id, object_id]"
      by (simp add: issubtype_def)
    then show False by (simp add: conformable_meta_id_def object_id_def type_id_def)
  qed
qed

lemma issubtype_trans:
  assumes "wf_state s" "issubtype s a b" "issubtype s b c"
  shows "issubtype s a c"
proof -
  from wf_stateD [OF assms(1) issubtype_valid [OF assms(2)]] have "wf_cls s a" .
  from wf_cls_closed [OF this] assms(2,3) show ?thesis by (auto simp: issubtype_def)
qed

lemma issubtype_refl:
  assumes "wf_state s" "a < length s"
  shows "issubtype s a a"
  using wf_cls_mro(2) [OF wf_stateD [OF assms]] by (auto simp: issubtype_def)

lemma wf_type_valid:
  assumes "wf_state s" "type_of s c = Some t"
  shows "t < length s" "issubtype s t type_id"
proof -
  from wf_stateD [OF assms(1) type_of_SomeD [OF assms(2)]] have w: "wf_cls s c" .
  show "t < length s" using wf_cls_mro(5) [OF w] assms(2) by auto
  show "issubtype s t type_id" using wf_cls_type [OF w assms(2)] .
qed

lemma conformable_subtype_type:
  assumes "wf_state s" "issubtype s mcls conformable_meta_id"
  shows "issubtype s mcls type_id"
  using issubtype_trans [OF assms] assms(1) by (simp add: wf_state_iff)

lemma class_getattr_NoneD:
  assumes "class_getattr s c name = Some v"
  shows "c < length s"
  using assms
  by (cases "c < length s")
     (simp_all add: class_getattr_def mro_of_def type_of_def get_cls_def)

lemma map_of_update_same: "map_of (AList.update name v d) name = Some v"
  by (simp add: update_conv')

lemma map_of_update_other: "name' \<noteq> name \<Longrightarrow> map_of (AList.update name v d) name' = map_of d name'"
  by (simp add: update_conv')



lemma lookup_mro_setattr_other:
  assumes "class_setattr s c name v = Inr s'" "name' \<noteq> name"
  shows "lookup_mro s' m name' = lookup_mro s m name'"
  using class_setattr_Inr(5) [OF assms(1)] assms(2)
  by (induction m) (simp_all add: map_of_update_other split: option.splits)

lemma class_getattr_setattr_other:
  assumes "class_setattr s c name v = Inr s'" "name' \<noteq> name"
  shows "class_getattr s' x name' = class_getattr s x name'"
  using class_setattr_Inr(3,4) [OF assms(1)] lookup_mro_setattr_other [OF assms]
  by (simp add: class_getattr_def split: option.splits)

section \<open>Every reachable state is well-formed\<close>





lemma extends_lookup:
  assumes "extends s s'" "list_all (\<lambda>x. x < length s) m" "key \<noteq> top_attr"
  shows "lookup_mro s' m key = lookup_mro s m key"
  using assms(2)
proof (induction m)
  case Nil
  then show ?case by simp
next
  case (Cons c m)
  then have "map_of (dict_of s' c) key = map_of (dict_of s c) key"
    using assms(1,3) by (simp add: extends_def)
  with Cons show ?case by (simp split: option.splits)
qed

lemma extends_lookup_cls:
  assumes "extends s s'" "wf_state s" "c < length s" "key \<noteq> top_attr"
  shows "lookup_mro s' (mro_of s' c) key = lookup_mro s (mro_of s c) key"
proof -
  have "mro_of s' c = mro_of s c" using assms(1,3) by (simp add: extends_def)
  then show ?thesis
    using extends_lookup [OF assms(1) wf_cls_mro(4) [OF wf_stateD [OF assms(2,3)]] assms(4)]
    by simp
qed

lemma extends_getattr:
  assumes "extends s s'" "wf_state s" "c < length s" "key \<noteq> top_attr"
  shows "class_getattr s' c key = class_getattr s c key"
proof -
  from wf_cls_mro(5) [OF wf_stateD [OF assms(2,3)]] obtain t where
    t: "type_of s c = Some t" "t < length s" by blast
  have t': "type_of s' c = Some t" using assms(1,3) t(1) by (simp add: extends_def)
  show ?thesis
    using extends_lookup_cls [OF assms] extends_lookup_cls [OF assms(1,2) t(2) assms(4)] t(1) t'
    by (simp add: class_getattr_def split: option.splits)
qed




lemma calculate_metaclass_bases:
  "calculate_metaclass s winner bs = Inr w \<Longrightarrow> list_all (\<lambda>b. b < length s) bs"
proof (induction bs arbitrary: winner)
  case Nil
  then show ?case by simp
next
  case (Cons b bs)
  from Cons.prems obtain t where t: "type_of s b = Some t"
    by (auto split: option.splits)
  from Cons.prems t have
    "calculate_metaclass s winner bs = Inr w \<or> calculate_metaclass s t bs = Inr w"
    by (auto split: if_splits)
  then have "list_all (\<lambda>b. b < length s) bs" using Cons.IH by blast
  then show ?case using type_of_SomeD [OF t] by simp
qed

lemma mro_tail_sound:
  assumes wf: "wf_state s" and valid: "list_all (\<lambda>b. b < length s) (bases_or_object bases)"
    and m: "mro_tail s bases = Some m"
  shows "distinct m" "list_all (\<lambda>x. x < length s) m"
    "\<forall>x \<in> set m. set (mro_of s x) \<subseteq> set m"
proof -
  let ?bases = "bases_or_object bases"
  let ?seqs = "map (mro_of s) ?bases @ [?bases]"
  from m have c: "c3_merge ?seqs = Some m" by (simp add: mro_tail_def)
  from c3_merge_sound [OF c] have sub: "set m \<subseteq> \<Union>(set ` set ?seqs)" and d: "distinct m"
    by simp_all
  from c3_merge_complete [OF c] have sup: "\<Union>(set ` set ?seqs) \<subseteq> set m" .
  show "distinct m" by (rule d)
  have cases: "x \<in> set ?bases \<or> (\<exists>b \<in> set ?bases. x \<in> set (mro_of s b))"
    if "x \<in> set m" for x
    using that sub by auto
  have bv: "b < length s" if "b \<in> set ?bases" for b
    using that valid by (simp add: list_all_iff)
  have bm: "set (mro_of s b) \<subseteq> set m" if "b \<in> set ?bases" for b
    using that sup by auto
  have "x < length s" if "x \<in> set m" for x
  proof -
    from cases [OF that] show ?thesis
    proof
      assume "x \<in> set ?bases"
      then show ?thesis by (rule bv)
    next
      assume "\<exists>b \<in> set ?bases. x \<in> set (mro_of s b)"
      then obtain b where b: "b \<in> set ?bases" "x \<in> set (mro_of s b)" by blast
      from wf_cls_mro(4) [OF wf_stateD [OF wf bv [OF b(1)]]] b(2)
      show ?thesis by (simp add: list_all_iff)
    qed
  qed
  then show "list_all (\<lambda>x. x < length s) m" by (simp add: list_all_iff)
  have "set (mro_of s x) \<subseteq> set m" if "x \<in> set m" for x
  proof -
    from cases [OF that] show ?thesis
    proof
      assume "x \<in> set ?bases"
      then show ?thesis by (rule bm)
    next
      assume "\<exists>b \<in> set ?bases. x \<in> set (mro_of s b)"
      then obtain b where b: "b \<in> set ?bases" "x \<in> set (mro_of s b)" by blast
      from wf_cls_closed [OF wf_stateD [OF wf bv [OF b(1)]] b(2)] bm [OF b(1)]
      show ?thesis by blast
    qed
  qed
  then show "\<forall>x \<in> set m. set (mro_of s x) \<subseteq> set m" by blast
qed

text \<open>\<^verbatim>\<open>type.__new__\<close>, spelled out for a well-formed state.\<close>

lemma type_new_impl_eq:
  assumes wf: "wf_state s" and valid: "list_all (\<lambda>b. b < length s) (bases_or_object bases)"
    and m: "mro_tail s bases = Some m"
  shows "type_new_impl s metatype name bases ns =
     (let s' = s @ [\<lparr>cls_name = name, cls_bases = bases_or_object bases,
                cls_mro = length s # m, cls_type = metatype, cls_dict = ns\<rparr>]
      in case call_init_subclass s' (lookup_mro s m ''__init_subclass__'') (length s) of
           Inl e \<Rightarrow> (Inl e, s)
         | Inr u \<Rightarrow> (Inr (length s), s'))"
  using valid m lookup_mro_append [OF mro_tail_sound(2) [OF wf valid m]]
  by (simp add: type_new_impl_def Let_def)







lemma redirect_subclasses_wf:
  assumes "wf_state s"
  shows "wf_state (snd (redirect_subclasses s target_mcls from_cls to_cls))"
proof -
  have "wf_state s'" if "class_setattr s target_mcls ''__new__'' v = Inr s'" for v s'
    using wf_state_setattr [OF assms that] .
  then show ?thesis
    using assms
    by (auto simp: redirect_subclasses_def split: option.splits pyval.splits sum.splits)
qed

lemma wf_init_state: "wf_state init_state"
  by code_simp

section \<open>The top class of a family\<close>















section \<open>The check of the capability hooks\<close>

lemma calculate_metaclass_desc:
  assumes "wf_state s"
  shows "calculate_metaclass s x bs = Inr w \<Longrightarrow> w = x \<or> issubtype s w x"
proof (induction bs arbitrary: x)
  case Nil
  then show ?case by simp
next
  case (Cons b bs)
  from Cons.prems obtain t where t: "type_of s b = Some t"
    by (auto split: option.splits)
  show ?case
  proof (cases "issubtype s x t")
    case True
    with Cons.prems t have "calculate_metaclass s x bs = Inr w" by simp
    from Cons.IH [OF this] show ?thesis .
  next
    case False
    with Cons.prems t have st: "issubtype s t x" and c: "calculate_metaclass s t bs = Inr w"
      by (auto split: if_splits)
    from Cons.IH [OF c] have "w = t \<or> issubtype s w t" .
    then show ?thesis using st issubtype_trans [OF assms _ st] by blast
  qed
qed

lemma calculate_metaclass_all:
  assumes "wf_state s"
  shows "calculate_metaclass s x bs = Inr w \<Longrightarrow>
           \<forall>b \<in> set bs. \<exists>t. type_of s b = Some t \<and> issubtype s w t"
proof (induction bs arbitrary: x)
  case Nil
  then show ?case by simp
next
  case (Cons b bs)
  from Cons.prems obtain t where t: "type_of s b = Some t"
    by (auto split: option.splits)
  have tr: "issubtype s t t"
    using issubtype_refl [OF assms wf_type_valid(1) [OF assms t]] .
  show ?case
  proof (cases "issubtype s x t")
    case True
    with Cons.prems t have c: "calculate_metaclass s x bs = Inr w" by simp
    from calculate_metaclass_desc [OF assms c] True
    have "issubtype s w t" using issubtype_trans [OF assms _ True] by blast
    with Cons.IH [OF c] t show ?thesis by simp
  next
    case False
    with Cons.prems t have c: "calculate_metaclass s t bs = Inr w"
      by (auto split: if_splits)
    from calculate_metaclass_desc [OF assms c] tr
    have "issubtype s w t" by blast
    with Cons.IH [OF c] t show ?thesis by simp
  qed
qed

lemma calculate_metaclass_fix:
  "\<forall>b \<in> set bs. \<exists>t. type_of s b = Some t \<and> issubtype s w t \<Longrightarrow>
     calculate_metaclass s w bs = Inr w"
  by (induction bs) auto

text \<open>\<^verbatim>\<open>type.__new__\<close> finds again the metaclass that the class statement settled on.\<close>

lemma calculate_metaclass_idem:
  assumes "wf_state s" "calculate_metaclass s x bs = Inr w"
  shows "calculate_metaclass s w bs = Inr w"
  using calculate_metaclass_fix [OF calculate_metaclass_all [OF assms]] .

lemma stmt_metaclass_Inr:
  assumes "stmt_metaclass s meta_kw bases = Inr w"
  shows "\<exists>x. calculate_metaclass s x bases = Inr w"
  using assms by (auto simp: stmt_metaclass_def split: option.splits)

lemma check_absmeths_hooks:
  "check_absmeths ns [''conformable_isinstance'', ''conformable_issubclass''] =
     (if map_of ns ''conformable_isinstance'' = None \<or>
         map_of ns ''conformable_issubclass'' = None
      then Inl TypeError else Inr ())"
  by simp

text \<open>
  The class that a constructor returns is new, has the declared namespace as its
  dictionary, and has passed the check when it inherits the \<^verbatim>\<open>__init_subclass__\<close> of
  \<^verbatim>\<open>ConformableMeta\<close>.
\<close>

lemma type_new_impl_created:
  assumes wf: "wf_state s"
    and r: "type_new_impl s metatype name bases ns = (Inr c, s')"
  shows "c = length s \<and> c < length s' \<and> dict_of s' c = ns \<and>
         (lookup_mro s' (tl (mro_of s' c)) ''__init_subclass__''
             = Some (VFun ConformableMetaInitSubclass) \<longrightarrow>
          map_of ns ''conformable_isinstance'' \<noteq> None \<and>
          map_of ns ''conformable_issubclass'' \<noteq> None)"
proof -
  from r obtain m where m: "mro_tail s bases = Some m"
    and valid: "list_all (\<lambda>b. b < length s) (bases_or_object bases)"
    by (auto simp: type_new_impl_def Let_def split: option.splits if_splits)
  let ?k = "\<lparr>cls_name = name, cls_bases = bases_or_object bases,
                cls_mro = length s # m, cls_type = metatype, cls_dict = ns\<rparr>"
  from r have eq: "c = length s" "s' = s @ [?k]"
    and ok: "call_init_subclass (s @ [?k]) (lookup_mro s m ''__init_subclass__'') (length s)
               = Inr ()"
    unfolding type_new_impl_eq [OF wf valid m] by (auto simp: Let_def split: sum.splits)
  have l: "lookup_mro s' (tl (mro_of s' c)) ''__init_subclass__''
             = lookup_mro s m ''__init_subclass__''"
    using eq lookup_mro_append [OF mro_tail_sound(2) [OF wf valid m]]
    by (simp add: append_new)
  have "map_of ns ''conformable_isinstance'' \<noteq> None \<and>
        map_of ns ''conformable_issubclass'' \<noteq> None"
    if "lookup_mro s m ''__init_subclass__'' = Some (VFun ConformableMetaInitSubclass)"
    using ok that
    by (simp add: call_init_subclass_def init_subclass_def append_new split: if_splits)
  then show ?thesis using eq l by (simp add: append_new)
qed

lemma call_new_created:
  "wf_state s \<Longrightarrow> call_new n f s mcls name bases ns = (Inr c, s') \<Longrightarrow>
     length s \<le> c \<and> c < length s' \<and> dict_of s' c = ns \<and>
     (lookup_mro s' (tl (mro_of s' c)) ''__init_subclass__''
         = Some (VFun ConformableMetaInitSubclass) \<longrightarrow>
      map_of ns ''conformable_isinstance'' \<noteq> None \<and>
      map_of ns ''conformable_issubclass'' \<noteq> None)"
proof (induction n arbitrary: f mcls bases c s')
  case 0
  then show ?case by simp
next
  case (Suc n)
  note wf = Suc.prems(1) and r = Suc.prems(2)
  show ?case
  proof (cases f)
    case TypeNew
    from r TypeNew obtain winner where
      "type_new_impl s winner name bases ns = (Inr c, s') \<or>
       (\<exists>g. call_new n g s winner name bases ns = (Inr c, s'))"
      by (auto split: if_splits sum.splits option.splits pyval.splits pyfun.splits)
    then show ?thesis
    proof
      assume "type_new_impl s winner name bases ns = (Inr c, s')"
      from type_new_impl_created [OF wf this] show ?thesis by auto
    next
      assume "\<exists>g. call_new n g s winner name bases ns = (Inr c, s')"
      then obtain g where "call_new n g s winner name bases ns = (Inr c, s')" by blast
      from Suc.IH [OF wf this] show ?thesis .
    qed
  next
    case ConformableMetaNew
    from r ConformableMetaNew obtain s1 where
      inner: "call_new n TypeNew s mcls name bases ns = (Inr c, s1)"
      and fin: "s' = s1 \<or> class_setattr s1 mcls top_attr (VCls c) = Inr s'"
      by (auto split: if_splits sum.splits option.splits pyval.splits prod.splits)
    note ih = Suc.IH [OF wf inner]
    from fin show ?thesis
    proof
      assume "s' = s1"
      with ih show ?thesis by simp
    next
      assume u: "class_setattr s1 mcls top_attr (VCls c) = Inr s'"
      note f = class_setattr_Inr [OF u]
      from r ConformableMetaNew
      have "issubtype s mcls conformable_meta_id \<or> isinstance_cls s mcls conformable_meta_id"
        by (simp split: if_splits)
      then have "mcls < length s"
        by (auto simp: isinstance_cls_def split: option.splits
            dest: issubtype_valid type_of_SomeD)
      with ih have ne: "c \<noteq> mcls" by simp
      have "lookup_mro s' (tl (mro_of s' c)) ''__init_subclass__''
              = lookup_mro s1 (tl (mro_of s1 c)) ''__init_subclass__''"
        using lookup_mro_setattr_other [OF u, of "''__init_subclass__''"] f(3)
        by (simp add: top_attr_def)
      then show ?thesis using ih f(1) f(5) [of c] ne by simp
    qed
  next
    case (RedirectNew from_cls to_cls to_mcls_new)
    from r RedirectNew obtain t where
      "call_new n to_mcls_new s t name
         (map (\<lambda>base. if base = from_cls then to_cls else base) bases) ns = (Inr c, s')"
      by (auto split: option.splits)
    from Suc.IH [OF wf this] show ?thesis .
  qed (use r in simp_all)
qed

text \<open>
  C5 fails as stated: \<^verbatim>\<open>class Shape(metaclass=ShapeMeta): pass\<close> and
  \<^verbatim>\<open>class Circle(Shape): pass\<close>, whose namespaces define neither hook, are created
  without an error: the types created under the metaclass are not checked for the hooks.
  Nor is every class derived from \<^verbatim>\<open>ConformableMeta\<close> checked:
  \<^verbatim>\<open>class M(Mixin, ConformableMeta): pass\<close> is created, because it inherits the
  \<^verbatim>\<open>__init_subclass__\<close> of \<^verbatim>\<open>Mixin\<close>.
\<close>

theorem hookless_class_counterexample:
  "map_of ([]::pydict) ''conformable_isinstance'' = None \<and>
   fst (class_stmt 2 st_meta (Some 3) ''Shape'' [] []) = Inr 4 \<and>
   fst (class_stmt 2 st_shape None ''Circle'' [4] []) = Inr 5 \<and>
   issubtype (snd (class_stmt 2 st_mixin None ''M'' [3, 2] [])) 4 conformable_meta_id \<and>
   fst (class_stmt 2 st_mixin None ''M'' [3, 2] []) = Inr 4"
  by code_simp

text \<open>
  C5, as the code has it. The check is made by \<^verbatim>\<open>type.__new__\<close> on the new class, and
  only when the \<^verbatim>\<open>__init_subclass__\<close> that the new class inherits (the first one in
  its MRO after the class itself) is the one of \<^verbatim>\<open>ConformableMeta\<close>: this is the case of
  a metaclass derived from \<^verbatim>\<open>ConformableMeta\<close>, with any number of bases, unless a base
  overrides the method, and not of the types made by such a metaclass. Whatever the
  constructor, a class statement never returns such a class whose namespace lacks
  \<^verbatim>\<open>conformable_isinstance\<close> or \<^verbatim>\<open>conformable_issubclass\<close>. When the statement is
  carried out by \<^verbatim>\<open>type.__new__\<close> itself, it raises \<^verbatim>\<open>TypeError\<close> exactly when a hook
  is missing and creates the class otherwise.
\<close>

theorem init_subclass_checks_metaclass:
  assumes wf: "wf_state s"
  shows "(\<forall>c s'.
            class_stmt n s meta_kw name bases ns = (Inr c, s') \<and>
            lookup_mro s' (tl (mro_of s' c)) ''__init_subclass__''
              = Some (VFun ConformableMetaInitSubclass) \<longrightarrow>
            map_of ns ''conformable_isinstance'' \<noteq> None \<and>
            map_of ns ''conformable_issubclass'' \<noteq> None) \<and>
         (\<forall>w k.
            stmt_metaclass s meta_kw bases = Inr w \<and> issubtype s w type_id \<and>
            lookup_mro s (mro_of s w) ''__new__'' = Some (VFun TypeNew) \<and>
            inherited_attr s bases ''__init_subclass__''
              = Some (VFun ConformableMetaInitSubclass) \<longrightarrow>
            (\<exists>m. mro_tail s bases = Some m \<and>
               class_stmt (Suc k) s meta_kw name bases ns =
                 (if map_of ns ''conformable_isinstance'' = None \<or>
                     map_of ns ''conformable_issubclass'' = None
                  then (Inl TypeError, s)
                  else (Inr (length s),
                        s @ [\<lparr>cls_name = name, cls_bases = bases_or_object bases,
                              cls_mro = length s # m, cls_type = w, cls_dict = ns\<rparr>]))))"
proof (rule conjI; intro allI impI)
  fix c s'
  assume a: "class_stmt n s meta_kw name bases ns = (Inr c, s') \<and>
            lookup_mro s' (tl (mro_of s' c)) ''__init_subclass__''
              = Some (VFun ConformableMetaInitSubclass)"
  then obtain w f where "call_new n f s w name bases ns = (Inr c, s')"
    by (auto simp: class_stmt_def metacall_def
        split: sum.splits option.splits pyval.splits)
  from call_new_created [OF wf this] a
  show "map_of ns ''conformable_isinstance'' \<noteq> None \<and>
        map_of ns ''conformable_issubclass'' \<noteq> None"
    by simp
next
  fix w k
  assume a: "stmt_metaclass s meta_kw bases = Inr w \<and> issubtype s w type_id \<and>
            lookup_mro s (mro_of s w) ''__new__'' = Some (VFun TypeNew) \<and>
            inherited_attr s bases ''__init_subclass__''
              = Some (VFun ConformableMetaInitSubclass)"
  then have meta: "stmt_metaclass s meta_kw bases = Inr w" and mty: "issubtype s w type_id"
    and ctor: "lookup_mro s (mro_of s w) ''__new__'' = Some (VFun TypeNew)"
    and inh: "inherited_attr s bases ''__init_subclass__''
              = Some (VFun ConformableMetaInitSubclass)"
    by simp_all
  from inh obtain m where m: "mro_tail s bases = Some m"
    and init: "lookup_mro s m ''__init_subclass__'' = Some (VFun ConformableMetaInitSubclass)"
    by (auto simp: inherited_attr_def split: option.splits)
  from stmt_metaclass_Inr [OF meta] obtain x where x: "calculate_metaclass s x bases = Inr w"
    by blast
  have idem: "calculate_metaclass s w bases = Inr w"
    using calculate_metaclass_idem [OF wf x] .
  have "object_id < length s" using wf object_ok_lookup(2) by (simp add: wf_state_iff)
  then have valid: "list_all (\<lambda>b. b < length s) (bases_or_object bases)"
    using calculate_metaclass_bases [OF x] by (simp add: bases_or_object_def)
  have "class_stmt (Suc k) s meta_kw name bases ns = type_new_impl s w name bases ns"
    using meta ctor mty idem by (simp add: class_stmt_def metacall_def)
  also have "\<dots> =
      (if map_of ns ''conformable_isinstance'' = None \<or>
          map_of ns ''conformable_issubclass'' = None
       then (Inl TypeError, s)
       else (Inr (length s),
             s @ [\<lparr>cls_name = name, cls_bases = bases_or_object bases,
                   cls_mro = length s # m, cls_type = w, cls_dict = ns\<rparr>]))"
    unfolding type_new_impl_eq [OF wf valid m]
    using init
    by (simp add: call_init_subclass_def init_subclass_def append_new Let_def)
  finally show "\<exists>m. mro_tail s bases = Some m \<and>
               class_stmt (Suc k) s meta_kw name bases ns =
                 (if map_of ns ''conformable_isinstance'' = None \<or>
                     map_of ns ''conformable_issubclass'' = None
                  then (Inl TypeError, s)
                  else (Inr (length s),
                        s @ [\<lparr>cls_name = name, cls_bases = bases_or_object bases,
                              cls_mro = length s # m, cls_type = w, cls_dict = ns\<rparr>]))"
    using m by blast
qed

theorem init_subclass_checks_metaclass_witness:
  "class_stmt 1 st_mixin None ''M2'' [2, 3] [] = (Inl TypeError, st_mixin) \<and>
   fst (class_stmt 1 st_mixin None ''M2'' [2, 3] shape_meta_namespace) = Inr 4 \<and>
   map_of shape_meta_namespace ''conformable_isinstance'' \<noteq> None"
proof -
  have wf: "wf_state st_mixin" by code_simp
  have meta: "stmt_metaclass st_mixin None [2, 3] = Inr 1" by code_simp
  have mty: "issubtype st_mixin 1 type_id" by code_simp
  have ctor: "lookup_mro st_mixin (mro_of st_mixin 1) ''__new__'' = Some (VFun TypeNew)"
    by code_simp
  have inh: "inherited_attr st_mixin [2, 3] ''__init_subclass__''
               = Some (VFun ConformableMetaInitSubclass)"
    by code_simp
  have l: "length st_mixin = 4" by code_simp
  have ns: "\<not> (map_of shape_meta_namespace ''conformable_isinstance'' = None \<or>
         map_of shape_meta_namespace ''conformable_issubclass'' = None)"
    by (simp add: shape_meta_namespace_def)
  have created: "class_stmt 1 st_mixin None ''M2'' [2, 3] shape_meta_namespace
        = (Inr 4, snd (class_stmt 1 st_mixin None ''M2'' [2, 3] shape_meta_namespace)) \<and>
      lookup_mro (snd (class_stmt 1 st_mixin None ''M2'' [2, 3] shape_meta_namespace))
        (tl (mro_of (snd (class_stmt 1 st_mixin None ''M2'' [2, 3] shape_meta_namespace)) 4))
        ''__init_subclass__''
        = Some (VFun ConformableMetaInitSubclass)"
    by code_simp
  note t1 = init_subclass_checks_metaclass [OF wf, of 1 None "''M2''" "[2, 3]" "[]"]
  note t2 = init_subclass_checks_metaclass [OF wf, of 1 None "''M2''" "[2, 3]" shape_meta_namespace]
  from t1 meta mty ctor inh
  have "\<exists>m. class_stmt (Suc 0) st_mixin None ''M2'' [2, 3] [] =
          (if map_of ([]::pydict) ''conformable_isinstance'' = None \<or>
              map_of ([]::pydict) ''conformable_issubclass'' = None
           then (Inl TypeError, st_mixin)
           else (Inr (length st_mixin),
                 st_mixin @ [\<lparr>cls_name = ''M2'', cls_bases = bases_or_object [2, 3],
                       cls_mro = length st_mixin # m, cls_type = 1, cls_dict = []\<rparr>]))"
    by blast
  then have a: "class_stmt 1 st_mixin None ''M2'' [2, 3] [] = (Inl TypeError, st_mixin)"
    by simp
  from t2 meta mty ctor inh
  have "\<exists>m. class_stmt (Suc 0) st_mixin None ''M2'' [2, 3] shape_meta_namespace =
          (if map_of shape_meta_namespace ''conformable_isinstance'' = None \<or>
              map_of shape_meta_namespace ''conformable_issubclass'' = None
           then (Inl TypeError, st_mixin)
           else (Inr (length st_mixin),
                 st_mixin @ [\<lparr>cls_name = ''M2'', cls_bases = bases_or_object [2, 3],
                       cls_mro = length st_mixin # m, cls_type = 1,
                       cls_dict = shape_meta_namespace\<rparr>]))"
    by blast
  with ns l have b: "fst (class_stmt 1 st_mixin None ''M2'' [2, 3] shape_meta_namespace) = Inr 4"
    by auto
  from t2 created have c: "map_of shape_meta_namespace ''conformable_isinstance'' \<noteq> None"
    by blast
  from a b c show ?thesis by simp
qed

section \<open>Installing a redirection: the new constructor\<close>







section \<open>Installing a redirection: the rewritten base list\<close>

lemma ordinary_new_single:
  assumes wf: "wf_state s"
    and f: "f = TypeNew \<or> (f = ConformableMetaNew \<and> issubtype s t conformable_meta_id)"
    and ty: "type_of s b = Some t"
    and init: "lookup_mro s (mro_of s b) ''__init_subclass__'' = Some (VFun ObjectInitSubclass)"
  shows "call_new (Suc (Suc n)) f s t name [b] ns =
     (Inr (length s), s @ [\<lparr>cls_name = name, cls_bases = [b],
        cls_mro = length s # mro_of s b, cls_type = t, cls_dict = ns\<rparr>])"
proof -
  have b: "b < length s" using type_of_SomeD [OF ty] .
  note t = wf_type_valid [OF wf ty]
  have "t \<in> set (mro_of s t)" using issubtype_refl [OF wf t(1)] by (simp add: issubtype_def)
  then have cm: "calculate_metaclass s t [b] = Inr t"
    using calculate_metaclass_single [OF ty] by simp
  have tn: "call_new (Suc k) TypeNew s t name [b] ns = type_new_impl s t name [b] ns" for k
    using cm t(2) by simp
  show ?thesis
    using f tn [of n] tn [of "Suc n"] type_new_impl_single [OF wf b init, of t name ns]
    by auto
qed







section \<open>Several redirections on one family\<close>




section \<open>The top class as the classes of a family read it\<close>

text \<open>
  The class registered by the first construction without bases under a metaclass
  derived from \<^verbatim>\<open>ConformableMeta\<close> reads itself as \<^verbatim>\<open>cls.__top\<close>, when neither its
  namespace nor \<^verbatim>\<open>object\<close> defines that name.
\<close>

lemma first_top_seen_from_class:
  assumes wf: "wf_state s"
    and fam: "issubtype s mcls conformable_meta_id"
    and top: "class_getattr s mcls top_attr = Some VNone"
    and ns: "map_of ns top_attr = None"
    and obj: "map_of (dict_of s object_id) top_attr = None"
  shows "\<exists>s1. call_new (Suc (Suc n)) ConformableMetaNew s mcls name [] ns = (Inr (length s), s1) \<and>
           class_getattr s1 (length s) top_attr = Some (VCls (length s))"
proof -
  let ?T = "length s"
  let ?k = "\<lparr>cls_name = name, cls_bases = [object_id],
        cls_mro = [?T, object_id], cls_type = mcls, cls_dict = ns\<rparr>"
  let ?s' = "s @ [?k]"
  note heap = family_not_builtin [OF wf fam]
  have mty: "issubtype s mcls type_id" using conformable_subtype_type [OF wf fam] .
  have m: "mcls < length s" using class_getattr_NoneD [OF top] .
  have o: "object_id < length s" using wf object_ok_lookup(2) by (simp add: wf_state_iff)
  have top': "class_getattr ?s' mcls top_attr = Some VNone"
    using class_getattr_append [OF wf m] top by simp
  have "\<not> (mcls = object_id \<or> mcls = type_id \<or> \<not> mcls < length ?s')" using heap m by simp
  then obtain s1 where s1: "class_setattr ?s' mcls top_attr (VCls ?T) = Inr s1"
    by (simp add: class_setattr_def)
  note f = class_setattr_Inr [OF s1]
  from wf_stateD [OF wf m] wf_cls_mro(2) obtain rest where r: "mro_of s mcls = mcls # rest"
    by blast
  have call: "call_new (Suc (Suc n)) ConformableMetaNew s mcls name [] ns = (Inr ?T, s1)"
    using fam mty type_new_impl_nobase [OF wf] top' s1 by simp
  have mroT: "mro_of s1 ?T = [?T, object_id]" using f(3) [of ?T] by (simp add: append_new)
  have dT: "dict_of s1 ?T = ns" using f(5) [of ?T] m by (simp add: append_new)
  have dO: "dict_of s1 object_id = dict_of s object_id"
    using f(5) [of object_id] heap(1) o by (simp add: append_old)
  have own: "lookup_mro s1 (mro_of s1 ?T) top_attr = None"
    using mroT dT dO ns obj by simp
  have tyT: "type_of s1 ?T = Some mcls" using f(4) [of ?T] by (simp add: append_new)
  have "mro_of s1 mcls = mcls # rest" using f(3) [of mcls] r m by (simp add: append_old)
  then have "lookup_mro s1 (mro_of s1 mcls) top_attr = Some (VCls ?T)"
    using f(5) [of mcls] by (simp add: map_of_update_same)
  then have "class_getattr s1 ?T top_attr = Some (VCls ?T)"
    using own tyT by (simp add: class_getattr_def)
  with call show ?thesis by blast
qed

text \<open>
  A class declared with the single base \<open>T\<close>, a class of a metaclass derived from
  \<^verbatim>\<open>ConformableMeta\<close>, is a new class with \<open>T\<close> in its MRO, and it
  reads the same \<^verbatim>\<open>cls.__top\<close> as \<open>T\<close> does: below a top class, \<^verbatim>\<open>cls.__top\<close> is that
  top class and never the derived class.
\<close>

lemma derived_class_sees_family_top:
  assumes wf: "wf_state s"
    and fam: "issubtype s mcls conformable_meta_id"
    and ty: "type_of s T = Some mcls"
    and init: "lookup_mro s (mro_of s T) ''__init_subclass__'' = Some (VFun ObjectInitSubclass)"
    and ns: "map_of ns top_attr = None"
  shows "\<exists>s'. call_new (Suc (Suc n)) ConformableMetaNew s mcls name [T] ns = (Inr (length s), s') \<and>
           length s \<noteq> T \<and> T \<in> set (mro_of s' (length s)) \<and>
           class_getattr s' (length s) top_attr = class_getattr s T top_attr"
proof -
  let ?D = "length s"
  let ?k = "\<lparr>cls_name = name, cls_bases = [T],
        cls_mro = ?D # mro_of s T, cls_type = mcls, cls_dict = ns\<rparr>"
  let ?s' = "s @ [?k]"
  have t: "T < length s"
    using ty by (cases "T < length s") (simp_all add: type_of_def get_cls_def)
  from wf_stateD [OF wf t] have w: "wf_cls s T" .
  from wf_cls_mro(5) [OF w] ty have m: "mcls < length s" by auto
  from wf_stateD [OF wf m] have wm: "wf_cls s mcls" .
  have call: "call_new (Suc (Suc n)) ConformableMetaNew s mcls name [T] ns = (Inr ?D, ?s')"
    using ordinary_new_single [OF wf _ ty init, of ConformableMetaNew n name ns] fam by simp
  from wf_cls_mro(2) [OF w] have inT: "T \<in> set (mro_of s T)" by auto
  have own: "lookup_mro ?s' (mro_of ?s' ?D) top_attr = lookup_mro s (mro_of s T) top_attr"
    using ns lookup_mro_append [OF wf_cls_mro(4) [OF w], of ?k top_attr]
    by (simp add: append_new)
  have meta: "lookup_mro ?s' (mro_of ?s' mcls) top_attr = lookup_mro s (mro_of s mcls) top_attr"
    using m lookup_mro_append [OF wf_cls_mro(4) [OF wm], of ?k top_attr]
    by (simp add: append_old)
  have tyD: "type_of ?s' ?D = Some mcls" by (simp add: append_new)
  have "class_getattr ?s' ?D top_attr =
          (case lookup_mro ?s' (mro_of ?s' ?D) top_attr of
             Some v \<Rightarrow> Some v
           | None \<Rightarrow> lookup_mro ?s' (mro_of ?s' mcls) top_attr)"
    by (simp add: class_getattr_def tyD split: option.splits)
  also have "\<dots> = (case lookup_mro s (mro_of s T) top_attr of
             Some v \<Rightarrow> Some v
           | None \<Rightarrow> lookup_mro s (mro_of s mcls) top_attr)"
    unfolding own meta ..
  also have "\<dots> = class_getattr s T top_attr"
    by (simp add: class_getattr_def ty split: option.splits)
  finally have eq: "class_getattr ?s' ?D top_attr = class_getattr s T top_attr" .
  have inD: "T \<in> set (mro_of ?s' ?D)" using inT by (simp add: append_new)
  from call t inD eq show ?thesis by blast
qed

end
